theory Spec2Isabelle
  imports Main "HOL-Library.Word" "HOL-Library.Sublist"
begin

section \<open>Strings of the source language\<close>

text \<open>
  A string of the source is a sequence of UTF-16 code units: \<open>length\<close>, the regular
  expressions of \<open>escapeString\<close> and \<open>unescapeString\<close> (written without the \<open>u\<close> flag)
  and \<open>trim\<close> all work on code units.
\<close>

type_synonym jschar = "16 word"
type_synonym jsstring = "jschar list"

abbreviation BACKSLASH :: jschar where "BACKSLASH \<equiv> 0x5C"
abbreviation QUOTE :: jschar where "QUOTE \<equiv> 0x22"
abbreviation NEWLINE :: jschar where "NEWLINE \<equiv> 0x0A"
abbreviation CARRIAGE_RETURN :: jschar where "CARRIAGE_RETURN \<equiv> 0x0D"
abbreviation TAB :: jschar where "TAB \<equiv> 0x09"
abbreviation BACKSPACE :: jschar where "BACKSPACE \<equiv> 0x08"
abbreviation FORM_FEED :: jschar where "FORM_FEED \<equiv> 0x0C"
abbreviation LETTER_n :: jschar where "LETTER_n \<equiv> 0x6E"
abbreviation LETTER_r :: jschar where "LETTER_r \<equiv> 0x72"
abbreviation LETTER_t :: jschar where "LETTER_t \<equiv> 0x74"
abbreviation LETTER_b :: jschar where "LETTER_b \<equiv> 0x62"
abbreviation LETTER_f :: jschar where "LETTER_f \<equiv> 0x66"

text \<open>An ASCII literal of the source, as code units.\<close>

definition js :: "string \<Rightarrow> jsstring" where
  "js s = map (\<lambda>c. of_nat (of_char c)) s"

section \<open>Escaping and unescaping (App.tsx, escapeString and unescapeString)\<close>

text \<open>
  \<open>str.replace(/c/g, r)\<close> for a pattern that matches the single code unit \<open>c\<close>: every
  occurrence is replaced by \<open>r\<close>. None of the replacement strings of the source contains
  a dollar sign, so they are inserted literally.
\<close>

definition replace_unit :: "jschar \<Rightarrow> jsstring \<Rightarrow> jsstring \<Rightarrow> jsstring" where
  "replace_unit c r s = concat (map (\<lambda>x. if x = c then r else [x]) s)"

text \<open>
  \<open>str.replace(/ab/g, r)\<close> for a pattern that matches the two code units \<open>a\<close>, \<open>b\<close>: the
  scan goes from left to right, and after a match it resumes behind the match, so matches
  do not overlap.
\<close>

fun replace_pair :: "jschar \<Rightarrow> jschar \<Rightarrow> jsstring \<Rightarrow> jsstring \<Rightarrow> jsstring" where
  "replace_pair a b r (x # y # zs) =
     (if x = a \<and> y = b then r @ replace_pair a b r zs
      else x # replace_pair a b r (y # zs))"
| "replace_pair a b r zs = zs"

definition escapeString :: "jsstring \<Rightarrow> jsstring" where
  "escapeString str =
     replace_unit FORM_FEED [BACKSLASH, LETTER_f]
       (replace_unit BACKSPACE [BACKSLASH, LETTER_b]
         (replace_unit TAB [BACKSLASH, LETTER_t]
           (replace_unit CARRIAGE_RETURN [BACKSLASH, LETTER_r]
             (replace_unit NEWLINE [BACKSLASH, LETTER_n]
               (replace_unit QUOTE [BACKSLASH, QUOTE]
                 (replace_unit BACKSLASH [BACKSLASH, BACKSLASH] str))))))"

definition unescapeString :: "jsstring \<Rightarrow> jsstring" where
  "unescapeString str =
     replace_pair BACKSLASH BACKSLASH [BACKSLASH]
       (replace_pair BACKSLASH QUOTE [QUOTE]
         (replace_pair BACKSLASH LETTER_f [FORM_FEED]
           (replace_pair BACKSLASH LETTER_b [BACKSPACE]
             (replace_pair BACKSLASH LETTER_t [TAB]
               (replace_pair BACKSLASH LETTER_r [CARRIAGE_RETURN]
                 (replace_pair BACKSLASH LETTER_n [NEWLINE] str))))))"


section \<open>Whitespace (String.prototype.trim and the class \<open>\s\<close>)\<close>

text \<open>
  The code units that \<open>trim\<close> removes and that \<open>\s\<close> matches: the WhiteSpace and
  LineTerminator productions of ECMAScript.
\<close>

definition is_space :: "jschar \<Rightarrow> bool" where
  "is_space c =
     (c \<in> {0x09, 0x0A, 0x0B, 0x0C, 0x0D, 0x20, 0xA0, 0x1680, 0x2028, 0x2029,
            0x202F, 0x205F, 0x3000, 0xFEFF}
      \<or> (0x2000 \<le> c \<and> c \<le> 0x200A))"

definition trim :: "jsstring \<Rightarrow> jsstring" where
  "trim s = rev (dropWhile is_space (rev (dropWhile is_space s)))"

text \<open>Truthiness of a string and of a \<open>string | null\<close> (or \<open>string | undefined\<close>) value.\<close>

definition truthy :: "jsstring \<Rightarrow> bool" where
  "truthy s = (s \<noteq> [])"

fun truthy_opt :: "jsstring option \<Rightarrow> bool" where
  "truthy_opt None = False"
| "truthy_opt (Some s) = truthy s"

section \<open>Values (types.ts, JsonValue)\<close>

text \<open>
  \<open>JsonValue = string | number | boolean | null | JsonObject | JsonArray\<close>. The type of
  numbers is a parameter: no function of the source that is modelled here looks inside a
  number. An object is the list of its own properties in the order in which
  \<open>Object.keys\<close> enumerates them; the keys of an object of the source are distinct.
\<close>

datatype 'n json =
    JNull
  | JBool bool
  | JNumber 'n
  | JString jsstring
  | JArray "'n json list"
  | JObject "(jsstring \<times> 'n json) list"

section \<open>The external service (geminiService, GenerationResult)\<close>

text \<open>
  The optional field \<open>error\<close> of the result is named \<open>result_error\<close> here: the session has
  a state variable \<open>error\<close> of its own.
\<close>

record GenerationResult =
  content :: jsstring
  result_error :: "jsstring option"

text \<open>
  What the remote call \<open>ai.models.generateContent\<close> (together with \<open>getAiClient\<close>) did:
  it threw an error, whose \<open>message\<close> may be absent, or it returned a response, whose
  \<open>text\<close> may be absent.
\<close>

datatype ai_outcome = Threw "jsstring option" | Responded "jsstring option"

text \<open>\<open>a || b\<close> on strings that may be absent.\<close>

definition or_else :: "jsstring option \<Rightarrow> jsstring \<Rightarrow> jsstring" where
  "or_else a b = (if truthy_opt a then the a else b)"

text \<open>\<open>str.replace(/pat/g, '')\<close> for a literal, non-empty pattern: leftmost matches, not overlapping.\<close>

fun remove_all :: "jsstring \<Rightarrow> jsstring \<Rightarrow> jsstring" where
  "remove_all pat [] = []"
| "remove_all pat (x # xs) =
     (if pat \<noteq> [] \<and> prefix pat (x # xs) then remove_all pat (drop (length pat - 1) xs)
      else x # remove_all pat xs)"

text \<open>\<open>str.replace(/^pat\s*/, '')\<close>: a literal pattern at the start, with the whitespace behind it.\<close>

definition remove_leading :: "jsstring \<Rightarrow> jsstring \<Rightarrow> jsstring" where
  "remove_leading pat s =
     (if prefix pat s then dropWhile is_space (drop (length pat) s) else s)"

text \<open>\<open>str.replace(/pat$/, '')\<close>: a literal pattern at the very end.\<close>

definition remove_trailing :: "jsstring \<Rightarrow> jsstring \<Rightarrow> jsstring" where
  "remove_trailing pat s = (if suffix pat s then take (length s - length pat) s else s)"

definition fixMalformedJson :: "jsstring \<Rightarrow> ai_outcome \<Rightarrow> GenerationResult" where
  "fixMalformedJson API_KEY outcome =
     (if \<not> truthy API_KEY then \<lparr>content = [], result_error = Some (js ''API Key is missing.'')\<rparr>
      else case outcome of
        Responded response_text \<Rightarrow>
          (let text = or_else response_text [];
               cleanText = trim (remove_all (js ''```'') (remove_all (js ''```json'') text))
           in \<lparr>content = cleanText, result_error = None\<rparr>)
      | Threw message \<Rightarrow>
          \<lparr>content = [], result_error = Some (or_else message (js ''Failed to repair JSON.''))\<rparr>)"

definition generateTypeScriptInterfaces :: "jsstring \<Rightarrow> ai_outcome \<Rightarrow> GenerationResult" where
  "generateTypeScriptInterfaces API_KEY outcome =
     (if \<not> truthy API_KEY then \<lparr>content = [], result_error = Some (js ''API Key is missing.'')\<rparr>
      else case outcome of
        Responded response_text \<Rightarrow>
          (let text = or_else response_text [];
               text = trim (remove_trailing (js ''```'')
                        (remove_leading (js ''```ts'')
                          (remove_leading (js ''```typescript'') text)))
           in \<lparr>content = text, result_error = None\<rparr>)
      | Threw message \<Rightarrow>
          \<lparr>content = [], result_error = Some (or_else message (js ''Failed to generate types.''))\<rparr>)"


section \<open>The session (App.tsx)\<close>

datatype format_mode = Pretty | Raw | Tree

datatype ai_mode = Repair | Types

text \<open>
  The state variables of \<open>App\<close>, one field for each \<open>useState\<close>. \<open>parsedData\<close> and
  \<open>selectedData\<close> have the type \<open>any\<close> and start as \<open>null\<close>, which is \<open>JNull\<close>.
\<close>

record 'n app_state =
  jsonInput :: jsstring
  parsedData :: "'n json"
  selectedData :: "'n json"
  error :: "jsstring option"
  isProcessing :: bool
  notification :: "jsstring option"
  isSidebarOpen :: bool
  aiMode :: "ai_mode option"
  generatedTypes :: "jsstring option"
  formatMode :: format_mode

text \<open>
  What the session takes from its environment: \<open>JSON.parse\<close>, which returns a value or
  throws an error with a message; \<open>JSON.stringify(v)\<close> and \<open>JSON.stringify(v, null, 2)\<close>;
  and the key \<open>API_KEY\<close> of the external service.
\<close>

record 'n environment =
  JSON_parse :: "jsstring \<Rightarrow> jsstring + 'n json"
  JSON_stringify :: "'n json \<Rightarrow> jsstring"
  JSON_stringify_2 :: "'n json \<Rightarrow> jsstring"
  API_KEY :: jsstring

text \<open>The effect that runs after a render in which \<open>jsonInput\<close> has changed (and after the first).\<close>

definition parse_effect :: "'n environment \<Rightarrow> 'n app_state \<Rightarrow> 'n app_state" where
  "parse_effect env st =
     (if \<not> truthy (trim (jsonInput st))
      then st\<lparr>parsedData := JNull, selectedData := JNull, error := None\<rparr>
      else case JSON_parse env (jsonInput st) of
        Inr parsed \<Rightarrow> st\<lparr>parsedData := parsed, selectedData := parsed, error := None\<rparr>
      | Inl message \<Rightarrow> st\<lparr>error := Some message\<rparr>)"

text \<open>
  \<open>showNotification\<close> sets the notification; the timer that clears it three seconds later
  is outside this model.
\<close>

definition showNotification :: "jsstring \<Rightarrow> 'n app_state \<Rightarrow> 'n app_state" where
  "showNotification msg st = st\<lparr>notification := Some msg\<rparr>"

definition handleEscape :: "'n app_state \<Rightarrow> 'n app_state" where
  "handleEscape st =
     showNotification (js ''Text Escaped'') (st\<lparr>jsonInput := escapeString (jsonInput st)\<rparr>)"

definition handleUnescape :: "'n app_state \<Rightarrow> 'n app_state" where
  "handleUnescape st =
     showNotification (js ''Text Unescaped'') (st\<lparr>jsonInput := unescapeString (jsonInput st)\<rparr>)"

text \<open>\<open>handleFormat\<close> and \<open>handleMinify\<close> return the new state and their boolean result.\<close>

definition handleFormat ::
  "'n environment \<Rightarrow> jsstring \<Rightarrow> 'n app_state \<Rightarrow> 'n app_state \<times> bool" where
  "handleFormat env currentInput st =
     (case JSON_parse env currentInput of
        Inr parsed \<Rightarrow>
          (showNotification (js ''JSON Formatted'')
             (st\<lparr>jsonInput := JSON_stringify_2 env parsed, formatMode := Pretty\<rparr>), True)
      | Inl e \<Rightarrow>
          (case JSON_parse env (unescapeString currentInput) of
             Inr parsed \<Rightarrow>
               (showNotification (js ''Auto-unescaped & Formatted'')
                  (st\<lparr>jsonInput := JSON_stringify_2 env parsed, formatMode := Pretty\<rparr>), True)
           | Inl err \<Rightarrow> (showNotification (js ''Cannot format invalid JSON'') st, False)))"

definition handleMinify ::
  "'n environment \<Rightarrow> jsstring \<Rightarrow> 'n app_state \<Rightarrow> 'n app_state \<times> bool" where
  "handleMinify env currentInput st =
     (case JSON_parse env currentInput of
        Inr parsed \<Rightarrow>
          (showNotification (js ''JSON Minified'')
             (st\<lparr>jsonInput := JSON_stringify env parsed, formatMode := Raw\<rparr>), True)
      | Inl e \<Rightarrow>
          (case JSON_parse env (unescapeString currentInput) of
             Inr parsed \<Rightarrow>
               (showNotification (js ''Auto-unescaped & Minified'')
                  (st\<lparr>jsonInput := JSON_stringify env parsed, formatMode := Raw\<rparr>), True)
           | Inl err \<Rightarrow> (showNotification (js ''Cannot minify invalid JSON'') st, False)))"

text \<open>
  The first part of \<open>toggleFormat\<close>: with an error shown and the mode \<open>pretty\<close> or \<open>tree\<close>
  asked for, the unescaped buffer is parsed; the result is the unescaped text and its
  value when that succeeds (the handler then returns early), \<open>None\<close> otherwise.
\<close>

definition auto_check ::
  "'n environment \<Rightarrow> format_mode \<Rightarrow> 'n app_state \<Rightarrow> (jsstring \<times> 'n json) option" where
  "auto_check env mode st =
     (if truthy_opt (error st) \<and> (mode = Pretty \<or> mode = Tree)
      then (let unescaped = unescapeString (jsonInput st)
            in case JSON_parse env unescaped of
                 Inr parsed \<Rightarrow> Some (unescaped, parsed)
               | Inl ignored \<Rightarrow> None)
      else None)"

definition toggleFormat :: "'n environment \<Rightarrow> format_mode \<Rightarrow> 'n app_state \<Rightarrow> 'n app_state" where
  "toggleFormat env mode st =
     (if mode = formatMode st \<and> mode \<noteq> Tree then st
      else case auto_check env mode st of
        Some (unescaped, parsed) \<Rightarrow>
          (if mode = Pretty
           then showNotification (js ''Auto-unescaped JSON'')
                  (st\<lparr>jsonInput := JSON_stringify_2 env parsed, formatMode := Pretty\<rparr>)
           else showNotification (js ''Auto-unescaped for Tree View'')
                  (st\<lparr>jsonInput := unescaped, formatMode := Tree\<rparr>))
      | None \<Rightarrow>
          (if mode = Tree then st\<lparr>formatMode := Tree\<rparr>
           else if mode = Pretty then fst (handleFormat env (jsonInput st) st)
           else fst (handleMinify env (jsonInput st) st)))"

definition handleClear :: "'n app_state \<Rightarrow> 'n app_state" where
  "handleClear st =
     st\<lparr>jsonInput := [], parsedData := JNull, selectedData := JNull, error := None,
        generatedTypes := None, aiMode := None\<rparr>"

text \<open>
  \<open>handleAiFix\<close> and \<open>handleGenerateTypes\<close> are asynchronous: the part before the
  \<open>await\<close> decides whether the service is called, and the part behind it runs when the
  service has answered, on the state of that moment.
\<close>

definition handleAiFix_begin :: "'n app_state \<Rightarrow> 'n app_state \<times> bool" where
  "handleAiFix_begin st =
     (if \<not> truthy_opt (error st)
      then (showNotification (js ''JSON is already valid.'') st, False)
      else (st\<lparr>isProcessing := True, aiMode := Some Repair\<rparr>, True))"

definition handleAiFix_resume :: "GenerationResult \<Rightarrow> 'n app_state \<Rightarrow> 'n app_state" where
  "handleAiFix_resume result st =
     (let st = st\<lparr>isProcessing := False, aiMode := None\<rparr>
      in if truthy_opt (result_error result)
         then showNotification (js ''AI Fix Failed: '' @ the (result_error result)) st
         else showNotification (js ''JSON Repaired by Gemini AI'')
                (st\<lparr>jsonInput := content result\<rparr>))"

definition handleGenerateTypes_begin :: "'n app_state \<Rightarrow> 'n app_state \<times> bool" where
  "handleGenerateTypes_begin st =
     (if truthy_opt (error st) \<or> \<not> truthy (trim (jsonInput st))
      then (showNotification (js ''Please provide valid JSON first.'') st, False)
      else (st\<lparr>isProcessing := True, aiMode := Some Types\<rparr>, True))"

definition handleGenerateTypes_resume :: "GenerationResult \<Rightarrow> 'n app_state \<Rightarrow> 'n app_state" where
  "handleGenerateTypes_resume result st =
     (let st = st\<lparr>isProcessing := False\<rparr>
      in if truthy_opt (result_error result)
         then (showNotification (js ''Gen Types Failed: '' @ the (result_error result)) st)
                \<lparr>aiMode := None\<rparr>
         else showNotification (js ''TypeScript Interfaces Generated'')
                (st\<lparr>generatedTypes := Some (content result)\<rparr>))"

definition onNodeSelect :: "'n json \<Rightarrow> 'n app_state \<Rightarrow> 'n app_state" where
  "onNodeSelect v st = st\<lparr>selectedData := v\<rparr>"

text \<open>
  The events of the session: an edit in the text box, an uploaded file that has been read,
  the buttons, and the answers of the external service.
\<close>

datatype 'n event =
    Edit jsstring
  | Upload jsstring
  | Escape
  | Unescape
  | ToggleFormat format_mode
  | Clear
  | AiFix
  | AiFixAnswer ai_outcome
  | GenerateTypes
  | GenerateTypesAnswer ai_outcome
  | CloseTypes
  | NodeSelect "'n json"

fun handle :: "'n environment \<Rightarrow> 'n event \<Rightarrow> 'n app_state \<Rightarrow> 'n app_state" where
  "handle env (Edit val) st = st\<lparr>jsonInput := val\<rparr>"
| "handle env (Upload text) st = st\<lparr>jsonInput := text\<rparr>"
| "handle env Escape st = handleEscape st"
| "handle env Unescape st = handleUnescape st"
| "handle env (ToggleFormat mode) st = toggleFormat env mode st"
| "handle env Clear st = handleClear st"
| "handle env AiFix st = fst (handleAiFix_begin st)"
| "handle env (AiFixAnswer outcome) st =
     handleAiFix_resume (fixMalformedJson (API_KEY env) outcome) st"
| "handle env GenerateTypes st = fst (handleGenerateTypes_begin st)"
| "handle env (GenerateTypesAnswer outcome) st =
     handleGenerateTypes_resume (generateTypeScriptInterfaces (API_KEY env) outcome) st"
| "handle env CloseTypes st = st\<lparr>generatedTypes := None\<rparr>"
| "handle env (NodeSelect v) st = onNodeSelect v st"

text \<open>
  One event: the handler runs, the component renders again, and the parse effect runs when
  \<open>jsonInput\<close> is not the string it was at the previous render.
\<close>

definition step :: "'n environment \<Rightarrow> 'n event \<Rightarrow> 'n app_state \<Rightarrow> 'n app_state" where
  "step env ev st =
     (let st' = handle env ev st
      in if jsonInput st' \<noteq> jsonInput st then parse_effect env st' else st')"


section \<open>The tree view (JsonTree)\<close>

abbreviation DOT :: jschar where "DOT \<equiv> 0x2E"
abbreviation LBRACKET :: jschar where "LBRACKET \<equiv> 0x5B"
abbreviation RBRACKET :: jschar where "RBRACKET \<equiv> 0x5D"

text \<open>The decimal numeral of an array index, as \<open>Object.keys\<close> gives it for an array.\<close>

definition digit :: "nat \<Rightarrow> jschar" where
  "digit d = 0x30 + of_nat d"

function decimal :: "nat \<Rightarrow> jsstring" where
  "decimal n = (if n < 10 then [digit n] else decimal (n div 10) @ [digit (n mod 10)])"
  by pat_completeness auto
termination
  by (relation "measure id") auto

declare decimal.simps [simp del]

definition isObject :: "'n json \<Rightarrow> bool" where
  "isObject v = (case v of JArray xs \<Rightarrow> True | JObject kvs \<Rightarrow> True | _ \<Rightarrow> False)"

definition isArray :: "'n json \<Rightarrow> bool" where
  "isArray v = (case v of JArray xs \<Rightarrow> True | _ \<Rightarrow> False)"

text \<open>
  The keys of a composite value in the order of \<open>Object.keys\<close>, each with \<open>value[key]\<close>:
  the indices of an array as decimal numerals, the own properties of an object.
\<close>

definition entries :: "'n json \<Rightarrow> (jsstring \<times> 'n json) list" where
  "entries v =
     (case v of
        JArray xs \<Rightarrow> zip (map decimal [0..<length xs]) xs
      | JObject kvs \<Rightarrow> kvs
      | _ \<Rightarrow> [])"

definition Object_keys :: "'n json \<Rightarrow> jsstring list" where
  "Object_keys v = map fst (entries v)"

definition isEmpty :: "'n json \<Rightarrow> bool" where
  "isEmpty v = (isObject v \<and> length (Object_keys v) = 0)"

definition currentPath :: "jsstring option \<Rightarrow> jsstring \<Rightarrow> jsstring" where
  "currentPath keyName path =
     (if truthy_opt keyName
      then (if truthy path then path @ [DOT] @ the keyName else the keyName)
      else path)"

definition childPath :: "bool \<Rightarrow> jsstring \<Rightarrow> jsstring \<Rightarrow> jsstring" where
  "childPath is_array current key =
     (if is_array then current @ [LBRACKET] @ key @ [RBRACKET]
      else if truthy current then current @ [DOT] @ key else key)"

lemma size_member: "x \<in> set xs \<Longrightarrow> f x < Suc (size_list f xs)"
  by (induction xs) auto

lemma size_member_snd: "(k, c) \<in> set kvs \<Longrightarrow> f c < Suc (size_list (size_prod g f) kvs)"
  by (induction kvs) auto

lemma entries_size: "(k, c) \<in> set (entries v) \<Longrightarrow> size c < size v"
proof (cases v)
  case (JArray xs)
  assume "(k, c) \<in> set (entries v)"
  then have "c \<in> set xs"
    using JArray by (auto simp: entries_def dest: set_zip_rightD)
  then show ?thesis
    using JArray by (simp add: size_member)
next
  case (JObject kvs)
  assume "(k, c) \<in> set (entries v)"
  then show ?thesis
    using JObject by (simp add: entries_def size_member_snd)
qed (simp_all add: entries_def)

text \<open>
  A position in a value tree is the list of child indices that leads to it from the root.
  \<open>node_paths\<close> lists, for the component with the props \<open>keyName\<close>, \<open>path\<close> and
  \<open>value\<close> and for every component below it, the position and the prop \<open>path\<close>, which
  is the string handed to \<open>onCopy\<close>. All nodes are taken as expanded.
\<close>

function node_paths ::
  "jsstring option \<Rightarrow> jsstring \<Rightarrow> 'n json \<Rightarrow> (nat list \<times> jsstring) list" where
  "node_paths keyName path v =
     ([], path) #
     (if isObject v \<and> \<not> isEmpty v
      then concat (map (\<lambda>(index, key, childValue).
             map (\<lambda>(pos, p). (index # pos, p))
               (node_paths (Some key)
                  (childPath (isArray v) (currentPath keyName path) key) childValue))
             (enumerate 0 (entries v)))
      else [])"
  by pat_completeness auto
termination
  apply (relation "measure (\<lambda>(keyName, path, v). size v)")
   apply simp
  apply (auto simp: in_set_enumerate_eq)
  apply (metis entries_size nth_mem)
  done

declare node_paths.simps [simp del]

text \<open>
  The state of the mounted components: every component holds \<open>isExpanded\<close>, and has a
  child component for every key while it is a non-empty composite and expanded. A
  component that is not rendered does not exist and holds no state. (The flag
  \<open>isHovered\<close>, which only shows the copy button, is left out.)
\<close>

datatype view = View (isExpanded: bool) (kids: "view list")

text \<open>A component that is mounted starts with \<open>useState(true)\<close>, and so do its children.\<close>

function mount :: "'n json \<Rightarrow> view" where
  "mount v =
     View True
       (if isObject v \<and> \<not> isEmpty v
        then map (\<lambda>(key, childValue). mount childValue) (entries v)
        else [])"
  by pat_completeness auto
termination
  by (relation "measure size") (auto dest: entries_size)

declare mount.simps [simp del]

text \<open>
  The rows that a component renders, each with the position of the component it belongs
  to: the header of an expanded composite (depth, key, array or object, type label shown),
  the header of a collapsed one (with the size and the comma), the closing bracket, and the
  row of a primitive or empty value (with the value when \<open>showValues\<close> holds).
\<close>

datatype 'n row =
    OpenRow nat "jsstring option" bool bool
  | CollapsedRow nat "jsstring option" bool bool nat bool
  | CloseRow nat bool bool
  | ValueRow nat "jsstring option" "'n json option" bool

lemma kid_size:
  assumes "(index, kid, entry) \<in> set (enumerate 0 (zip ks E))"
  shows "size kid < Suc (size_list size ks)"
proof -
  have "index < length (zip ks E)" and "zip ks E ! index = (kid, entry)"
    using assms by (simp_all add: in_set_enumerate_eq del: nth_zip length_zip)
  then have "(kid, entry) \<in> set (zip ks E)"
    by (metis nth_mem)
  then have "kid \<in> set ks"
    by (rule set_zip_leftD)
  then show ?thesis
    by (rule size_member)
qed

function rows ::
  "bool \<Rightarrow> jsstring option \<Rightarrow> bool \<Rightarrow> nat \<Rightarrow> 'n json \<Rightarrow> view \<Rightarrow> (nat list \<times> 'n row) list" where
  "rows showValues keyName isLast depth v (View expanded ks) =
     (if isObject v \<and> \<not> isEmpty v
      then (if \<not> expanded
            then [([], CollapsedRow depth keyName (isArray v) showValues
                         (length (entries v)) (\<not> isLast \<and> showValues))]
            else ([], OpenRow depth keyName (isArray v) showValues) #
                 concat (map (\<lambda>(index, kid, key, childValue).
                           map (\<lambda>(pos, r). (index # pos, r))
                             (rows showValues (Some key) (index = length (entries v) - 1)
                                (depth + 1) childValue kid))
                         (enumerate 0 (zip ks (entries v))))
                 @ [([], CloseRow depth (isArray v) (\<not> isLast \<and> showValues))])
      else [([], ValueRow depth keyName (if showValues then Some v else None)
                   (showValues \<and> \<not> isLast))])"
  by pat_completeness auto
termination
  apply (relation "measure (\<lambda>(showValues, keyName, isLast, depth, v, w). size w)")
   apply simp
  apply (auto dest: kid_size)
  done

declare rows.simps [simp del]

text \<open>
  \<open>toggleExpand\<close> sets \<open>isExpanded\<close> to its negation. At the next render a collapsed
  component renders no children, so their components are unmounted; an expanded one
  renders them, so they are mounted anew.
\<close>

fun toggleExpand :: "'n json \<Rightarrow> view \<Rightarrow> view" where
  "toggleExpand v (View expanded ks) =
     (if expanded then View False []
      else View True (map (\<lambda>(key, childValue). mount childValue) (entries v)))"

text \<open>
  A click on the toggler of the component at a position. Only the header of a non-empty
  composite has a toggler, and only a mounted component can be clicked.
\<close>

fun toggle_at :: "nat list \<Rightarrow> 'n json \<Rightarrow> view \<Rightarrow> view" where
  "toggle_at [] v w = (if isObject v \<and> \<not> isEmpty v then toggleExpand v w else w)"
| "toggle_at (i # pos) v (View expanded ks) =
     (if i < length ks \<and> i < length (entries v)
      then View expanded (ks[i := toggle_at pos (snd (entries v ! i)) (ks ! i)])
      else View expanded ks)"

fun view_at :: "nat list \<Rightarrow> view \<Rightarrow> view option" where
  "view_at [] w = Some w"
| "view_at (i # pos) (View expanded ks) =
     (if i < length ks then view_at pos (ks ! i) else None)"

fun value_at :: "nat list \<Rightarrow> 'n json \<Rightarrow> 'n json option" where
  "value_at [] v = Some v"
| "value_at (i # pos) v =
     (if i < length (entries v) then value_at pos (snd (entries v ! i)) else None)"

text \<open>The stored flag of the component at a position, when that component is mounted.\<close>

definition expanded_at :: "nat list \<Rightarrow> view \<Rightarrow> bool option" where
  "expanded_at pos w = map_option isExpanded (view_at pos w)"

text \<open>A rendered tree: the prop \<open>value\<close> of the root and the state of the components.\<close>

record 'n tree =
  tree_value :: "'n json"
  tree_view :: view

definition toggle :: "nat list \<Rightarrow> 'n tree \<Rightarrow> 'n tree" where
  "toggle pos t = t\<lparr>tree_view := toggle_at pos (tree_value t) (tree_view t)\<rparr>"

text \<open>The root is rendered without key, as the last node, at depth 0.\<close>

definition render :: "bool \<Rightarrow> 'n tree \<Rightarrow> (nat list \<times> 'n row) list" where
  "render showValues t = rows showValues None True 0 (tree_value t) (tree_view t)"

section \<open>Notions used to state the properties\<close>

text \<open>A buffer is blank when it is empty or holds only code units that \<open>trim\<close> removes.\<close>

definition blank :: "jsstring \<Rightarrow> bool" where
  "blank s = list_all is_space s"

text \<open>
  Escaped text: every backslash is the first code unit of one of the seven two-unit
  sequences that \<open>escapeString\<close> writes, and no code unit outside such a sequence is one
  of those named by \<open>raw\<close>.
\<close>

definition escape_letters :: "jschar list" where
  "escape_letters = [BACKSLASH, QUOTE, LETTER_n, LETTER_r, LETTER_t, LETTER_b, LETTER_f]"

fun escaped_text :: "(jschar \<Rightarrow> bool) \<Rightarrow> jsstring \<Rightarrow> bool" where
  "escaped_text raw [] = True"
| "escaped_text raw [c] = (c \<noteq> BACKSLASH \<and> \<not> raw c)"
| "escaped_text raw (c # d # ds) =
     (if c = BACKSLASH then d \<in> set escape_letters \<and> escaped_text raw ds
      else \<not> raw c \<and> escaped_text raw (d # ds))"

text \<open>The control characters, U+0000 to U+001F, and the double quote.\<close>

definition is_control :: "jschar \<Rightarrow> bool" where
  "is_control c = (c < 0x20)"

definition control_or_quote :: "jschar \<Rightarrow> bool" where
  "control_or_quote c = (is_control c \<or> c = QUOTE)"

text \<open>The characters, other than the backslash, that \<open>escapeString\<close> has a pattern for.\<close>

definition named_in_escapeString :: "jschar \<Rightarrow> bool" where
  "named_in_escapeString c =
     (c \<in> {QUOTE, NEWLINE, CARRIAGE_RETURN, TAB, BACKSPACE, FORM_FEED})"

text \<open>What \<open>escapeString\<close> writes for one code unit.\<close>

definition escape_unit :: "jschar \<Rightarrow> jsstring" where
  "escape_unit c =
     (if c = BACKSLASH then [BACKSLASH, BACKSLASH]
      else if c = QUOTE then [BACKSLASH, QUOTE]
      else if c = NEWLINE then [BACKSLASH, LETTER_n]
      else if c = CARRIAGE_RETURN then [BACKSLASH, LETTER_r]
      else if c = TAB then [BACKSLASH, LETTER_t]
      else if c = BACKSPACE then [BACKSLASH, LETTER_b]
      else if c = FORM_FEED then [BACKSLASH, LETTER_f]
      else [c])"

text \<open>The rows that belong neither to the component at \<open>pos\<close> nor to one below it.\<close>

definition outside :: "nat list \<Rightarrow> (nat list \<times> 'r) list \<Rightarrow> (nat list \<times> 'r) list" where
  "outside pos rs = filter (\<lambda>(q, r). \<not> prefix pos q) rs"

text \<open>
  A value tree in which the keys of every object are distinct, as they are in every object
  of the source, and every key of an object is non-empty and holds neither of the two
  code units that start a path segment, the dot and the opening bracket.
\<close>

definition plain_key :: "jsstring \<Rightarrow> bool" where
  "plain_key k = (k \<noteq> [] \<and> DOT \<notin> set k \<and> LBRACKET \<notin> set k)"

function addressable :: "'n json \<Rightarrow> bool" where
  "addressable v =
     (distinct (map fst (entries v))
      \<and> (\<forall>(k, c)\<in>set (entries v). (isArray v \<or> plain_key k) \<and> addressable c))"
  by pat_completeness auto
termination
  by (relation "measure size") (auto dest: entries_size)

declare addressable.simps [simp del]

text \<open>
  Documents: \<open>{"a":[{"b":1}]}\<close>; \<open>{"":1}\<close>, whose only key is the empty string; and
  \<open>[[1],2]\<close>, rendered with every node expanded.
\<close>

definition spec_doc :: "nat json" where
  "spec_doc = JObject [(js ''a'', JArray [JObject [(js ''b'', JNumber 1)]])]"

definition empty_key_doc :: "nat json" where
  "empty_key_doc = JObject [([], JNumber 1)]"

definition nested :: "nat json" where
  "nested = JArray [JArray [JNumber 1], JNumber 2]"

definition nested_tree :: "nat tree" where
  "nested_tree = \<lparr>tree_value = nested, tree_view = mount nested\<rparr>"

subsection \<open>An environment for evaluating the session on concrete buffers\<close>

text \<open>
  \<open>JSON.parse\<close> and \<open>JSON.stringify\<close> on the literal fragment of JSON: the texts
  \<open>null\<close>, \<open>true\<close> and \<open>false\<close> between JSON whitespace. On these texts, on blank
  texts and on texts that hold a backslash or a letter outside a literal, \<open>literal_parse\<close>
  succeeds or fails exactly as \<open>JSON.parse\<close> does, and the concrete evaluations below
  use no other text. The wording of the messages is that of one engine; nothing depends
  on it. The two serialisations of a literal coincide.
\<close>

definition is_json_ws :: "jschar \<Rightarrow> bool" where
  "is_json_ws c = (c \<in> {0x20, 0x09, 0x0A, 0x0D})"

definition literal_parse :: "jsstring \<Rightarrow> jsstring + unit json" where
  "literal_parse text =
     (let t = rev (dropWhile is_json_ws (rev (dropWhile is_json_ws text)))
      in if t = js ''null'' then Inr JNull
         else if t = js ''true'' then Inr (JBool True)
         else if t = js ''false'' then Inr (JBool False)
         else if t = [] then Inl (js ''Unexpected end of JSON input'')
         else Inl (js ''Unexpected token''))"

definition literal_stringify :: "unit json \<Rightarrow> jsstring" where
  "literal_stringify v =
     (case v of
        JNull \<Rightarrow> js ''null''
      | JBool b \<Rightarrow> (if b then js ''true'' else js ''false'')
      | _ \<Rightarrow> [])"

definition literal_env :: "unit environment" where
  "literal_env =
     \<lparr>JSON_parse = literal_parse, JSON_stringify = literal_stringify,
      JSON_stringify_2 = literal_stringify, API_KEY = js ''key''\<rparr>"

text \<open>The session with an empty buffer, as \<open>handleClear\<close> leaves it.\<close>

definition cleared_state :: "unit app_state" where
  "cleared_state =
     \<lparr>jsonInput = [], parsedData = JNull, selectedData = JNull, error = None,
      isProcessing = False, notification = None, isSidebarOpen = True, aiMode = None,
      generatedTypes = None, formatMode = Pretty\<rparr>"

text \<open>Two states of the session: the buffer \<open>true\<close>, and the buffer \<open>null\<close> followed by backslash, \<open>n\<close>.\<close>

definition true_state :: "unit app_state" where
  "true_state = step literal_env (Edit (js ''true'')) cleared_state"

definition escaped_null_state :: "unit app_state" where
  "escaped_null_state =
     step literal_env (Edit (js ''null'' @ [BACKSLASH, LETTER_n])) cleared_state"

section \<open>Escaping\<close>

lemma replace_unit_append:
  "replace_unit c r (xs @ ys) = replace_unit c r xs @ replace_unit c r ys"
  by (simp add: replace_unit_def)

lemma escapeString_Nil: "escapeString [] = []"
  by (simp add: escapeString_def replace_unit_def)

lemma escapeString_single: "escapeString [c] = escape_unit c"
  by (simp add: escapeString_def escape_unit_def replace_unit_def)

lemma escapeString_append: "escapeString (xs @ ys) = escapeString xs @ escapeString ys"
  by (simp add: escapeString_def replace_unit_append)

lemma escapeString_Cons: "escapeString (c # cs) = escape_unit c @ escapeString cs"
  using escapeString_append [of "[c]" cs] by (simp add: escapeString_single)

lemma escaped_text_escape_unit:
  "escaped_text named_in_escapeString (escape_unit c @ rest) =
   escaped_text named_in_escapeString rest"
  by (cases rest) (simp_all add: escape_unit_def escape_letters_def named_in_escapeString_def)

text \<open>
  C1. For every string \<open>s\<close>, \<open>unescapeString (escapeString s) = s\<close>. The code does not
  do this: for the two code units backslash, \<open>n\<close> the escaped text is backslash,
  backslash, \<open>n\<close>, and \<open>unescapeString\<close>, whose first replacement looks for backslash
  followed by \<open>n\<close>, finds it at the second backslash and returns backslash, newline.
\<close>

theorem unescape_escape_backslash_n:
  "escapeString [BACKSLASH, LETTER_n] = [BACKSLASH, BACKSLASH, LETTER_n]
   \<and> unescapeString [BACKSLASH, BACKSLASH, LETTER_n] = [BACKSLASH, NEWLINE]
   \<and> unescapeString (escapeString [BACKSLASH, LETTER_n]) \<noteq> [BACKSLASH, LETTER_n]"
  by (simp add: escapeString_def unescapeString_def replace_unit_def)

lemma escapeString_concat: "escapeString s = concat (map escape_unit s)"
  by (induction s) (simp_all add: escapeString_Nil escapeString_Cons)

lemma replace_pair_other: "d \<noteq> a \<Longrightarrow> replace_pair a b r (d # rest) = d # replace_pair a b r rest"
  by (cases rest) simp_all

lemma replace_pair_tokens:
  assumes "\<forall>c\<in>set s. (\<exists>d. f c = [d] \<and> d \<noteq> a) \<or> (\<exists>x. f c = [a, x] \<and> x \<noteq> a)"
  shows "replace_pair a b r (concat (map f s)) = concat (map (\<lambda>c. if f c = [a, b] then r else f c) s)"
  using assms
proof (induction s)
  case Nil
  show ?case by simp
next
  case (Cons c s)
  then have IH: "replace_pair a b r (concat (map f s))
      = concat (map (\<lambda>c. if f c = [a, b] then r else f c) s)"
    by simp
  from Cons.prems consider d where "f c = [d]" "d \<noteq> a" | x where "f c = [a, x]" "x \<noteq> a"
    by auto
  then show ?case
  proof cases
    case 1
    then show ?thesis using IH by (simp add: replace_pair_other)
  next
    case 2
    then show ?thesis using IH by (simp add: replace_pair_other)
  qed
qed

lemma replace_pair_absent: "a \<notin> set s \<Longrightarrow> replace_pair a b r s = s"
  by (induction s) (auto simp: replace_pair_other)

text \<open>
  On a string without backslash the two functions are inverse: the seven replacements of
  \<open>unescapeString\<close> then meet only the two-unit sequences that \<open>escapeString\<close> wrote.
\<close>

lemma unescape_escape_without_backslash:
  assumes "BACKSLASH \<notin> set s"
  shows "unescapeString (escapeString s) = s"
proof -
  let ?f1 = "\<lambda>c. if escape_unit c = [BACKSLASH, LETTER_n] then [NEWLINE] else escape_unit c"
  let ?f2 = "\<lambda>c. if ?f1 c = [BACKSLASH, LETTER_r] then [CARRIAGE_RETURN] else ?f1 c"
  let ?f3 = "\<lambda>c. if ?f2 c = [BACKSLASH, LETTER_t] then [TAB] else ?f2 c"
  let ?f4 = "\<lambda>c. if ?f3 c = [BACKSLASH, LETTER_b] then [BACKSPACE] else ?f3 c"
  let ?f5 = "\<lambda>c. if ?f4 c = [BACKSLASH, LETTER_f] then [FORM_FEED] else ?f4 c"
  let ?f6 = "\<lambda>c. if ?f5 c = [BACKSLASH, QUOTE] then [QUOTE] else ?f5 c"
  have t0: "\<forall>c\<in>set s. (\<exists>d. escape_unit c = [d] \<and> d \<noteq> BACKSLASH)
                     \<or> (\<exists>x. escape_unit c = [BACKSLASH, x] \<and> x \<noteq> BACKSLASH)"
    using assms by (auto simp: escape_unit_def)
  have t1: "\<forall>c\<in>set s. (\<exists>d. ?f1 c = [d] \<and> d \<noteq> BACKSLASH) \<or> (\<exists>x. ?f1 c = [BACKSLASH, x] \<and> x \<noteq> BACKSLASH)"
    using assms by (auto simp: escape_unit_def)
  have t2: "\<forall>c\<in>set s. (\<exists>d. ?f2 c = [d] \<and> d \<noteq> BACKSLASH) \<or> (\<exists>x. ?f2 c = [BACKSLASH, x] \<and> x \<noteq> BACKSLASH)"
    using assms by (auto simp: escape_unit_def)
  have t3: "\<forall>c\<in>set s. (\<exists>d. ?f3 c = [d] \<and> d \<noteq> BACKSLASH) \<or> (\<exists>x. ?f3 c = [BACKSLASH, x] \<and> x \<noteq> BACKSLASH)"
    using assms by (auto simp: escape_unit_def)
  have t4: "\<forall>c\<in>set s. (\<exists>d. ?f4 c = [d] \<and> d \<noteq> BACKSLASH) \<or> (\<exists>x. ?f4 c = [BACKSLASH, x] \<and> x \<noteq> BACKSLASH)"
    using assms by (auto simp: escape_unit_def)
  have t5: "\<forall>c\<in>set s. (\<exists>d. ?f5 c = [d] \<and> d \<noteq> BACKSLASH) \<or> (\<exists>x. ?f5 c = [BACKSLASH, x] \<and> x \<noteq> BACKSLASH)"
    using assms by (auto simp: escape_unit_def)
  have last: "map ?f6 s = map (\<lambda>c. [c]) s"
    using assms by (intro map_cong [OF refl]) (auto simp: escape_unit_def)
  have "unescapeString (escapeString s)
      = replace_pair BACKSLASH BACKSLASH [BACKSLASH] (concat (map ?f6 s))"
    unfolding unescapeString_def escapeString_concat
    by (simp only: replace_pair_tokens [OF t0] replace_pair_tokens [OF t1]
        replace_pair_tokens [OF t2] replace_pair_tokens [OF t3] replace_pair_tokens [OF t4]
        replace_pair_tokens [OF t5])
  also have "\<dots> = replace_pair BACKSLASH BACKSLASH [BACKSLASH] s"
    by (simp only: last) simp
  also have "\<dots> = s"
    using assms by (rule replace_pair_absent)
  finally show ?thesis .
qed

text \<open>
  C8, as stated: the output of \<open>escapeString\<close> holds no unescaped control character, no
  unescaped double quote and no backslash outside the seven escape sequences. It fails
  for the control character U+0001, which \<open>escapeString\<close> has no pattern for and
  returns as it is.
\<close>

theorem escapeString_control_counterexample:
  "escapeString [0x01] = [0x01] \<and> is_control 0x01
   \<and> \<not> escaped_text control_or_quote (escapeString [0x01])"
  by (simp add: escapeString_single escape_unit_def is_control_def control_or_quote_def)

text \<open>
  C8, amended: for every string \<open>s\<close>, the output of \<open>escapeString\<close> holds no unescaped
  newline, carriage return, tab, backspace or form feed, no unescaped double quote, and
  no backslash that is not the start of one of the seven escape sequences; the output is
  the input with each of the seven characters replaced by its sequence, and every other
  code unit, the remaining control characters among them, as it is.
\<close>

theorem escapeString_escaped:
  "escaped_text named_in_escapeString (escapeString s)
   \<and> escapeString s = concat (map escape_unit s)"
proof
  show "escaped_text named_in_escapeString (escapeString s)"
    by (induction s)
       (simp_all add: escapeString_Nil escapeString_Cons escaped_text_escape_unit)
  show "escapeString s = concat (map escape_unit s)"
    by (rule escapeString_concat)
qed

theorem escapeString_escaped_witness:
  "escaped_text named_in_escapeString (escapeString [QUOTE, 0x01, BACKSLASH, NEWLINE])
   \<and> escapeString [QUOTE, 0x01, BACKSLASH, NEWLINE] =
       [BACKSLASH, QUOTE, 0x01, BACKSLASH, BACKSLASH, BACKSLASH, LETTER_n]"
  using escapeString_escaped [of "[QUOTE, 0x01, BACKSLASH, NEWLINE]"]
  by (simp add: escapeString_Cons escapeString_Nil escape_unit_def)

section \<open>The parse effect\<close>

lemma all_dropWhile: "(\<forall>x\<in>set (dropWhile P s). P x) \<longleftrightarrow> (\<forall>x\<in>set s. P x)"
  by (induction s) auto

lemma trim_blank: "trim s = [] \<longleftrightarrow> blank s"
  by (simp add: trim_def blank_def list_all_iff all_dropWhile)

lemma jsonInput_parse_effect: "jsonInput (parse_effect env st) = jsonInput st"
  by (simp add: parse_effect_def split: sum.splits)

text \<open>
  C10. For every buffer that is empty or holds only whitespace, the parse effect clears the
  parsed value, the selection and the error to null, and surfaces no parse error; the
  buffer is not parsed.
\<close>

theorem blank_buffer_is_no_document:
  assumes "blank (jsonInput st)"
  shows "parse_effect env st = st\<lparr>parsedData := JNull, selectedData := JNull, error := None\<rparr>"
  using assms by (simp add: parse_effect_def truthy_def trim_blank)

theorem blank_buffer_is_no_document_witness:
  "blank [0x20, NEWLINE, TAB]
   \<and> parse_effect literal_env (cleared_state\<lparr>jsonInput := [0x20, NEWLINE, TAB],
        parsedData := JBool True, selectedData := JBool True, error := Some (js ''old'')\<rparr>)
     = cleared_state\<lparr>jsonInput := [0x20, NEWLINE, TAB]\<rparr>"
proof -
  have b: "blank [0x20, NEWLINE, TAB]"
    by (simp add: blank_def is_space_def)
  show ?thesis
    using b blank_buffer_is_no_document [of "cleared_state\<lparr>jsonInput := [0x20, NEWLINE, TAB],
        parsedData := JBool True, selectedData := JBool True, error := Some (js ''old'')\<rparr>" literal_env]
    by (simp add: cleared_state_def)
qed

lemma handle_keeps_parsedData:
  "\<not> blank (jsonInput (handle env ev st)) \<Longrightarrow> parsedData (handle env ev st) = parsedData st"
  by (cases ev)
     (auto simp: handleEscape_def handleUnescape_def showNotification_def toggleFormat_def
        handleFormat_def handleMinify_def handleClear_def handleAiFix_begin_def
        handleAiFix_resume_def handleGenerateTypes_begin_def handleGenerateTypes_resume_def
        onNodeSelect_def blank_def Let_def
      split: sum.splits option.splits if_splits)

text \<open>
  C9, amended: after every event that changes the buffer to a text that is not blank, the
  session has parsed the new buffer; when the parse succeeds the error is cleared and the
  parsed value and the selection are the new root value, and when it fails the previously
  parsed value is kept and the error is the message of the parser, as it is.
\<close>

theorem text_mutation_reparses:
  assumes "st' = step env ev st" and "jsonInput st' \<noteq> jsonInput st"
    and "\<not> blank (jsonInput st')"
  shows "case JSON_parse env (jsonInput st') of
           Inr v \<Rightarrow> error st' = None \<and> parsedData st' = v \<and> selectedData st' = v
         | Inl message \<Rightarrow> parsedData st' = parsedData st \<and> error st' = Some message"
proof -
  let ?h = "handle env ev st"
  have j: "jsonInput st' = jsonInput ?h"
    using assms(1) by (simp add: step_def Let_def jsonInput_parse_effect)
  then have ch: "jsonInput ?h \<noteq> jsonInput st" and nb: "\<not> blank (jsonInput ?h)"
    using assms by simp_all
  have st': "st' = parse_effect env ?h"
    using assms(1) ch by (simp add: step_def Let_def)
  have p: "parsedData ?h = parsedData st"
    using nb by (rule handle_keeps_parsedData)
  show ?thesis
    using nb p unfolding j unfolding st'
    by (simp add: parse_effect_def truthy_def trim_blank split: sum.splits)
qed

theorem text_mutation_reparses_witness:
  "jsonInput true_state \<noteq> jsonInput cleared_state \<and> \<not> blank (jsonInput true_state)
   \<and> JSON_parse literal_env (jsonInput true_state) = Inr (JBool True)
   \<and> error true_state = None \<and> parsedData true_state = JBool True
   \<and> selectedData true_state = JBool True
   \<and> jsonInput (step literal_env (Edit (js ''{a:1'')) true_state) \<noteq> jsonInput true_state
   \<and> \<not> blank (jsonInput (step literal_env (Edit (js ''{a:1'')) true_state))
   \<and> JSON_parse literal_env (jsonInput (step literal_env (Edit (js ''{a:1'')) true_state))
       = Inl (js ''Unexpected token'')
   \<and> parsedData (step literal_env (Edit (js ''{a:1'')) true_state) = JBool True
   \<and> error (step literal_env (Edit (js ''{a:1'')) true_state) = Some (js ''Unexpected token'')"
proof -
  let ?bad = "step literal_env (Edit (js ''{a:1'')) true_state"
  have a1: "true_state = step literal_env (Edit (js ''true'')) cleared_state"
    by (simp add: true_state_def)
  have a2: "jsonInput true_state \<noteq> jsonInput cleared_state" by code_simp
  have a3: "\<not> blank (jsonInput true_state)" by code_simp
  have p1: "JSON_parse literal_env (jsonInput true_state) = Inr (JBool True)" by code_simp
  have b2: "jsonInput ?bad \<noteq> jsonInput true_state" by code_simp
  have b3: "\<not> blank (jsonInput ?bad)" by code_simp
  have p2: "JSON_parse literal_env (jsonInput ?bad) = Inl (js ''Unexpected token'')" by code_simp
  have c1: "error true_state = None \<and> parsedData true_state = JBool True
            \<and> selectedData true_state = JBool True"
    using text_mutation_reparses [OF a1 a2 a3] by (simp add: p1)
  have pt: "parsedData true_state = JBool True" using c1 by simp
  have c2: "parsedData ?bad = JBool True \<and> error ?bad = Some (js ''Unexpected token'')"
    using text_mutation_reparses [OF refl b2 b3] by (simp add: p2 pt)
  show ?thesis using a2 a3 p1 c1 b2 b3 p2 c2 by blast
qed

text \<open>
  C9, as stated, speaks of every text mutation. It fails when the new buffer is blank: the
  buffer is not parsed; a single space is no JSON text, yet the value parsed before is
  not kept and no message is surfaced.
\<close>

theorem reparse_blank_counterexample:
  "jsonInput (step literal_env (Edit [0x20]) true_state) \<noteq> jsonInput true_state
   \<and> JSON_parse literal_env (jsonInput (step literal_env (Edit [0x20]) true_state))
       = Inl (js ''Unexpected end of JSON input'')
   \<and> parsedData true_state = JBool True
   \<and> parsedData (step literal_env (Edit [0x20]) true_state) = JNull
   \<and> error (step literal_env (Edit [0x20]) true_state) = None"
  by code_simp

section \<open>Formatting\<close>

text \<open>
  C2, amended: when the direct parse of the buffer and the parse of the unescaped buffer
  both fail, \<open>handleFormat\<close> returns false, shows the notification
  \<open>Cannot format invalid JSON\<close> and leaves the buffer and the error of the session as
  they are; that error, set by the parse effect, is the message of the direct parse when
  the buffer is not blank, and null when it is blank.
\<close>

theorem format_failure_keeps_text_and_error:
  assumes "JSON_parse env (jsonInput st0) = Inl e1"
    and "JSON_parse env (unescapeString (jsonInput st0)) = Inl e2"
    and "st = parse_effect env st0"
  shows "snd (handleFormat env (jsonInput st) st) = False
         \<and> jsonInput (fst (handleFormat env (jsonInput st) st)) = jsonInput st0
         \<and> error (fst (handleFormat env (jsonInput st) st))
             = (if blank (jsonInput st0) then None else Some e1)
         \<and> notification (fst (handleFormat env (jsonInput st) st))
             = Some (js ''Cannot format invalid JSON'')"
  using assms
  by (simp add: handleFormat_def jsonInput_parse_effect showNotification_def)
     (simp add: parse_effect_def truthy_def trim_blank)

theorem format_failure_keeps_text_and_error_witness:
  "JSON_parse literal_env (js ''{a:1'') = Inl (js ''Unexpected token'')
   \<and> JSON_parse literal_env (unescapeString (js ''{a:1'')) = Inl (js ''Unexpected token'')
   \<and> \<not> blank (js ''{a:1'')
   \<and> snd (handleFormat literal_env (js ''{a:1'')
            (parse_effect literal_env (true_state\<lparr>jsonInput := js ''{a:1''\<rparr>))) = False
   \<and> jsonInput (fst (handleFormat literal_env (js ''{a:1'')
            (parse_effect literal_env (true_state\<lparr>jsonInput := js ''{a:1''\<rparr>)))) = js ''{a:1''
   \<and> error (fst (handleFormat literal_env (js ''{a:1'')
            (parse_effect literal_env (true_state\<lparr>jsonInput := js ''{a:1''\<rparr>))))
       = Some (js ''Unexpected token'')"
proof -
  let ?st0 = "true_state\<lparr>jsonInput := js ''{a:1''\<rparr>"
  have h1: "JSON_parse literal_env (jsonInput ?st0) = Inl (js ''Unexpected token'')"
    by code_simp
  have h2: "JSON_parse literal_env (unescapeString (jsonInput ?st0)) = Inl (js ''Unexpected token'')"
    by code_simp
  have nb: "\<not> blank (js ''{a:1'')" by code_simp
  show ?thesis
    using h1 h2 nb format_failure_keeps_text_and_error [OF h1 h2 refl]
    by (simp add: jsonInput_parse_effect)
qed

text \<open>
  The same through the button: in a mode other than \<open>pretty\<close>, \<open>toggleFormat\<close> with
  \<open>pretty\<close> tries the unescaped buffer, then calls \<open>handleFormat\<close>, and only the
  notification changes.
\<close>

lemma toggle_pretty_failure:
  assumes "JSON_parse env (jsonInput st) = Inl e1"
    and "JSON_parse env (unescapeString (jsonInput st)) = Inl e2"
    and "formatMode st \<noteq> Pretty"
  shows "step env (ToggleFormat Pretty) st
         = st\<lparr>notification := Some (js ''Cannot format invalid JSON'')\<rparr>"
  using assms
  by (simp add: step_def toggleFormat_def auto_check_def handleFormat_def showNotification_def
      Let_def)

text \<open>
  C2, as stated: the error reported after the failed format is the message of the first
  parse attempt. It fails for the empty buffer: both parses fail, with a message, and the
  session shows no error.
\<close>

theorem format_blank_counterexample:
  "JSON_parse literal_env (jsonInput cleared_state) = Inl (js ''Unexpected end of JSON input'')
   \<and> JSON_parse literal_env (unescapeString (jsonInput cleared_state))
       = Inl (js ''Unexpected end of JSON input'')
   \<and> parse_effect literal_env cleared_state = cleared_state
   \<and> error (fst (handleFormat literal_env (jsonInput cleared_state) cleared_state)) = None
   \<and> notification (fst (handleFormat literal_env (jsonInput cleared_state) cleared_state))
       = Some (js ''Cannot format invalid JSON'')"
  by code_simp

text \<open>
  C4, as stated: switching to \<open>raw\<close> leaves the text as it is and attempts no recovery.
  It fails for the buffer \<open>null\<close> followed by backslash, \<open>n\<close> in the mode \<open>pretty\<close>:
  the direct parse fails, the unescaped buffer parses, and the buffer becomes \<open>null\<close>.
\<close>

theorem toggle_raw_counterexample:
  "jsonInput escaped_null_state = js ''null'' @ [BACKSLASH, LETTER_n]
   \<and> formatMode escaped_null_state = Pretty
   \<and> JSON_parse literal_env (jsonInput escaped_null_state) = Inl (js ''Unexpected token'')
   \<and> jsonInput (step literal_env (ToggleFormat Raw) escaped_null_state) = js ''null''
   \<and> jsonInput (step literal_env (ToggleFormat Raw) escaped_null_state)
       \<noteq> jsonInput escaped_null_state"
  by code_simp

text \<open>
  C4, amended: switching to \<open>raw\<close> never runs the check that \<open>toggleFormat\<close> makes
  for \<open>pretty\<close> and \<open>tree\<close>. It leaves the text as it is when the mode is \<open>raw\<close>
  already; otherwise it minifies: the buffer becomes the compact serialisation of the
  parsed buffer, or, when that parse fails, of the parsed unescaped buffer; when both
  parses fail the buffer is not written.
\<close>

theorem toggle_raw_minifies:
  "auto_check env Raw st = None
   \<and> jsonInput (toggleFormat env Raw st) =
       (if formatMode st = Raw then jsonInput st
        else case JSON_parse env (jsonInput st) of
          Inr parsed \<Rightarrow> JSON_stringify env parsed
        | Inl e \<Rightarrow>
            (case JSON_parse env (unescapeString (jsonInput st)) of
               Inr parsed \<Rightarrow> JSON_stringify env parsed
             | Inl err \<Rightarrow> jsonInput st))"
  by (simp add: auto_check_def toggleFormat_def handleMinify_def showNotification_def
      split: sum.splits)

theorem toggle_raw_minifies_witness:
  "formatMode escaped_null_state \<noteq> Raw
   \<and> JSON_parse literal_env (jsonInput escaped_null_state) = Inl (js ''Unexpected token'')
   \<and> JSON_parse literal_env (unescapeString (jsonInput escaped_null_state)) = Inr JNull
   \<and> jsonInput (toggleFormat literal_env Raw escaped_null_state) = js ''null''"
proof -
  have m: "formatMode escaped_null_state \<noteq> Raw" by code_simp
  have p1: "JSON_parse literal_env (jsonInput escaped_null_state) = Inl (js ''Unexpected token'')"
    by code_simp
  have p2: "JSON_parse literal_env (unescapeString (jsonInput escaped_null_state)) = Inr JNull"
    by code_simp
  have s: "JSON_stringify literal_env JNull = js ''null''" by code_simp
  show ?thesis
    using m p1 p2 s toggle_raw_minifies [of literal_env escaped_null_state] by simp
qed

section \<open>The external service\<close>

lemma truthy_js: "truthy (js (c # cs))"
  by (simp add: truthy_def js_def)

lemma truthy_or_else: "truthy d \<Longrightarrow> truthy (or_else m d)"
  by (cases m) (simp_all add: or_else_def)

lemma fixMalformedJson_failure:
  "result_error (fixMalformedJson key outcome) \<noteq> None \<Longrightarrow>
   truthy_opt (result_error (fixMalformedJson key outcome))"
  by (cases outcome) (auto simp: fixMalformedJson_def truthy_js truthy_or_else Let_def)

lemma generateTypeScriptInterfaces_failure:
  "result_error (generateTypeScriptInterfaces key outcome) \<noteq> None \<Longrightarrow>
   truthy_opt (result_error (generateTypeScriptInterfaces key outcome))"
  by (cases outcome) (auto simp: generateTypeScriptInterfaces_def truthy_js truthy_or_else Let_def)

text \<open>
  C7. When the repair service answers with an error, the buffer is what it was before the
  answer, and when the type-generation service answers with an error, the generated
  interface text is what it was; in both cases only the processing flag, the service
  mode and the notification change.
\<close>

theorem collaborator_failure_keeps_state:
  "(result_error (fixMalformedJson (API_KEY env) outcome) \<noteq> None \<longrightarrow>
      jsonInput (step env (AiFixAnswer outcome) st) = jsonInput st
      \<and> step env (AiFixAnswer outcome) st =
          st\<lparr>isProcessing := False, aiMode := None,
             notification := Some (js ''AI Fix Failed: ''
               @ the (result_error (fixMalformedJson (API_KEY env) outcome)))\<rparr>)
   \<and> (result_error (generateTypeScriptInterfaces (API_KEY env) outcome') \<noteq> None \<longrightarrow>
      generatedTypes (step env (GenerateTypesAnswer outcome') st) = generatedTypes st
      \<and> step env (GenerateTypesAnswer outcome') st =
          st\<lparr>isProcessing := False, aiMode := None,
             notification := Some (js ''Gen Types Failed: ''
               @ the (result_error (generateTypeScriptInterfaces (API_KEY env) outcome')))\<rparr>)"
proof (intro conjI impI)
  assume f: "result_error (fixMalformedJson (API_KEY env) outcome) \<noteq> None"
  show eq: "step env (AiFixAnswer outcome) st =
          st\<lparr>isProcessing := False, aiMode := None,
             notification := Some (js ''AI Fix Failed: ''
               @ the (result_error (fixMalformedJson (API_KEY env) outcome)))\<rparr>"
    using fixMalformedJson_failure [OF f]
    by (simp add: step_def handleAiFix_resume_def showNotification_def Let_def)
  show "jsonInput (step env (AiFixAnswer outcome) st) = jsonInput st"
    by (simp add: eq)
next
  assume f: "result_error (generateTypeScriptInterfaces (API_KEY env) outcome') \<noteq> None"
  show eq: "step env (GenerateTypesAnswer outcome') st =
          st\<lparr>isProcessing := False, aiMode := None,
             notification := Some (js ''Gen Types Failed: ''
               @ the (result_error (generateTypeScriptInterfaces (API_KEY env) outcome')))\<rparr>"
    using generateTypeScriptInterfaces_failure [OF f]
    by (simp add: step_def handleGenerateTypes_resume_def showNotification_def Let_def)
  show "generatedTypes (step env (GenerateTypesAnswer outcome') st) = generatedTypes st"
    by (simp add: eq)
qed

theorem collaborator_failure_keeps_state_witness:
  "result_error (fixMalformedJson (API_KEY literal_env) (Threw None)) \<noteq> None
   \<and> jsonInput (step literal_env (AiFixAnswer (Threw None)) escaped_null_state)
       = js ''null'' @ [BACKSLASH, LETTER_n]
   \<and> result_error (generateTypeScriptInterfaces (API_KEY literal_env) (Threw (Some (js ''quota''))))
       \<noteq> None
   \<and> generatedTypes (step literal_env (GenerateTypesAnswer (Threw (Some (js ''quota''))))
        (true_state\<lparr>generatedTypes := Some (js ''interface Root {}'')\<rparr>))
       = Some (js ''interface Root {}'')"
proof -
  let ?st2 = "true_state\<lparr>generatedTypes := Some (js ''interface Root {}'')\<rparr>"
  have f1: "result_error (fixMalformedJson (API_KEY literal_env) (Threw None)) \<noteq> None"
    by code_simp
  have f2: "result_error (generateTypeScriptInterfaces (API_KEY literal_env)
              (Threw (Some (js ''quota'')))) \<noteq> None"
    by code_simp
  have j: "jsonInput escaped_null_state = js ''null'' @ [BACKSLASH, LETTER_n]" by code_simp
  have c1: "jsonInput (step literal_env (AiFixAnswer (Threw None)) escaped_null_state)
            = jsonInput escaped_null_state"
    using f1 collaborator_failure_keeps_state
      [of literal_env "Threw None" escaped_null_state "Threw (Some (js ''quota''))"]
    by blast
  have c2: "generatedTypes (step literal_env (GenerateTypesAnswer (Threw (Some (js ''quota'')))) ?st2)
            = generatedTypes ?st2"
    using f2 collaborator_failure_keeps_state
      [of literal_env "Threw None" ?st2 "Threw (Some (js ''quota''))"]
    by blast
  show ?thesis using f1 f2 c1 c2 j by simp
qed

section \<open>Paths\<close>

lemma unat_digit: "d < 10 \<Longrightarrow> unat (digit d) = 48 + d"
  by (simp add: digit_def unat_word_ariths unat_of_nat)

lemma digit_inj: "d < 10 \<Longrightarrow> e < 10 \<Longrightarrow> digit d = digit e \<Longrightarrow> d = e"
  by (metis unat_digit add_left_cancel)

lemma digit_not_special: "d < 10 \<Longrightarrow> digit d \<noteq> DOT \<and> digit d \<noteq> RBRACKET"
proof -
  assume d: "d < 10"
  have "unat (digit d) \<noteq> unat DOT" "unat (digit d) \<noteq> unat RBRACKET"
    using d by (simp_all add: unat_digit)
  then show ?thesis by auto
qed

lemma decimal_not_Nil: "decimal n \<noteq> []"
  by (subst decimal.simps) simp

lemma decimal_digits: "c \<in> set (decimal n) \<Longrightarrow> c \<noteq> DOT \<and> c \<noteq> RBRACKET"
proof (induction n rule: decimal.induct)
  case (1 n)
  show ?case
  proof (cases "n < 10")
    case True
    then show ?thesis using "1.prems" digit_not_special [of n]
      by (subst (asm) decimal.simps) simp
  next
    case False
    then have "c \<in> set (decimal (n div 10)) \<or> c = digit (n mod 10)"
      using "1.prems" by (subst (asm) decimal.simps) auto
    then show ?thesis
      using "1.IH" [OF False] digit_not_special [of "n mod 10"] by auto
  qed
qed

lemma decimal_inj: "decimal n = decimal m \<Longrightarrow> n = m"
proof (induction n arbitrary: m rule: decimal.induct)
  case (1 n)
  show ?case
  proof (cases "n < 10")
    case n: True
    show ?thesis
    proof (cases "m < 10")
      case True
      then show ?thesis using n "1.prems" digit_inj [of n m]
        by (simp add: decimal.simps [of n] decimal.simps [of m])
    next
      case False
      then show ?thesis using n "1.prems" decimal_not_Nil [of "m div 10"]
        by (simp add: decimal.simps [of n] decimal.simps [of m])
    qed
  next
    case n: False
    show ?thesis
    proof (cases "m < 10")
      case True
      then show ?thesis using n "1.prems" decimal_not_Nil [of "n div 10"]
        by (simp add: decimal.simps [of n] decimal.simps [of m])
    next
      case False
      then have "decimal (n div 10) = decimal (m div 10)" "digit (n mod 10) = digit (m mod 10)"
        using n "1.prems" by (simp_all add: decimal.simps [of n] decimal.simps [of m])
      then have "n div 10 = m div 10" "n mod 10 = m mod 10"
        using "1.IH" [OF n] digit_inj [of "n mod 10" "m mod 10"] by simp_all
      then show ?thesis
        by (metis div_mult_mod_eq)
    qed
  qed
qed


lemma entries_Nil: "\<not> (isObject v \<and> \<not> isEmpty v) \<Longrightarrow> entries v = []"
  by (cases v) (simp_all add: isObject_def isEmpty_def Object_keys_def entries_def)

lemma concat_map_mem: "y \<in> set (concat (map f xs)) \<longleftrightarrow> (\<exists>x\<in>set xs. y \<in> set (f x))"
  by (induction xs) auto

lemma enumerate_mem: "(i, x) \<in> set (enumerate 0 xs) \<longleftrightarrow> i < length xs \<and> xs ! i = x"
  by (auto simp: in_set_enumerate_eq)

lemma shift_mem: "(q, s) \<in> set (map (\<lambda>(pos, p). (i # pos, p)) ps) \<longleftrightarrow>
    (\<exists>pos. q = i # pos \<and> (pos, s) \<in> set ps)"
  by (induction ps) auto

lemma node_paths_unfold:
  "node_paths keyName path v = ([], path) #
     concat (map (\<lambda>(index, key, childValue).
             map (\<lambda>(pos, p). (index # pos, p))
               (node_paths (Some key)
                  (childPath (isArray v) (currentPath keyName path) key) childValue))
             (enumerate 0 (entries v)))"
proof (cases "isObject v \<and> \<not> isEmpty v")
  case True
  then show ?thesis by (simp add: node_paths.simps [of keyName path v])
next
  case False
  then have "entries v = []" by (rule entries_Nil)
  then show ?thesis by (simp add: node_paths.simps [of keyName path v])
qed

lemma node_paths_mem:
  "(q, s) \<in> set (node_paths keyName path v) \<longleftrightarrow>
     (q = [] \<and> s = path)
     \<or> (\<exists>i k c pos. i < length (entries v) \<and> entries v ! i = (k, c) \<and> q = i # pos
          \<and> (pos, s) \<in> set (node_paths (Some k)
                (childPath (isArray v) (currentPath keyName path) k) c))"
  apply (subst node_paths_unfold)
  apply (simp only: set_simps insert_iff concat_map_mem Bex_def split_paired_Ex enumerate_mem
      prod.case shift_mem prod.inject)
  apply blast
  done

lemma split_unique:
  assumes "a @ r1 = b @ r2"
    and "\<forall>c\<in>set a. \<not> P c" and "\<forall>c\<in>set b. \<not> P c"
    and "r1 = [] \<or> P (hd r1)" and "r2 = [] \<or> P (hd r2)"
  shows "a = b \<and> r1 = r2"
  using assms
proof (induction a arbitrary: b)
  case Nil
  then show ?case by (cases b) auto
next
  case (Cons x a)
  then show ?case by (cases b) auto
qed

lemma entry_key:
  assumes "addressable v" and "i < length (entries v)" and "entries v ! i = (k, c)"
  shows "k \<noteq> [] \<and> DOT \<notin> set k \<and> (isArray v \<longrightarrow> RBRACKET \<notin> set k) \<and> addressable c"
proof -
  have mem: "(k, c) \<in> set (entries v)"
    using assms(2,3) by (metis nth_mem)
  have a: "(isArray v \<or> plain_key k) \<and> addressable c"
    using assms(1) mem by (subst (asm) addressable.simps) auto
  show ?thesis
  proof (cases v)
    case (JArray xs)
    then have "k = decimal i"
      using assms(2,3) by (simp add: entries_def)
    then show ?thesis
      using a by (auto simp: decimal_not_Nil dest: decimal_digits)
  qed (use a in \<open>auto simp: isArray_def plain_key_def\<close>)
qed

lemma entry_index:
  assumes "addressable v" and "i < length (entries v)" and "j < length (entries v)"
    and "fst (entries v ! i) = fst (entries v ! j)"
  shows "i = j"
proof -
  have "distinct (map fst (entries v))"
    using assms(1) by (subst (asm) addressable.simps) simp
  then show ?thesis
    using assms(2-4) nth_eq_iff_index_eq [of "map fst (entries v)" i j] by simp
qed

lemma currentPath_extends: "\<exists>u. currentPath keyName path = path @ u"
  by (simp add: currentPath_def truthy_def)

lemma currentPath_child: "k \<noteq> [] \<Longrightarrow> p \<noteq> [] \<Longrightarrow> currentPath (Some k) p = p @ [DOT] @ k"
  by (simp add: currentPath_def truthy_def)

lemma childPath_extends: "k \<noteq> [] \<Longrightarrow> \<exists>seg. childPath a cp k = cp @ seg \<and> seg \<noteq> []"
  by (simp add: childPath_def truthy_def)

lemma descendant_path:
  "addressable v \<Longrightarrow> (q, s) \<in> set (node_paths keyName path v) \<Longrightarrow> q \<noteq> [] \<Longrightarrow>
   \<exists>t. s = currentPath keyName path @ t \<and> t \<noteq> []"
proof (induction q arbitrary: keyName path v s)
  case Nil
  then show ?case by simp
next
  case (Cons i pos)
  let ?cp = "currentPath keyName path"
  from Cons.prems(2) obtain k c where
    i: "i < length (entries v)" and e: "entries v ! i = (k, c)"
    and m: "(pos, s) \<in> set (node_paths (Some k) (childPath (isArray v) ?cp k) c)"
    by (subst (asm) node_paths_mem) auto
  have k: "k \<noteq> []" and c: "addressable c"
    using entry_key [OF Cons.prems(1) i e] by simp_all
  obtain seg where seg: "childPath (isArray v) ?cp k = ?cp @ seg" "seg \<noteq> []"
    using childPath_extends [OF k] by blast
  show ?case
  proof (cases "pos = []")
    case True
    then have "s = ?cp @ seg"
      using m seg by (subst (asm) node_paths_mem) simp
    then show ?thesis using seg by blast
  next
    case False
    then obtain t where "s = currentPath (Some k) (childPath (isArray v) ?cp k) @ t"
      using Cons.IH [OF c m] by blast
    then have "s = ?cp @ (seg @ [DOT] @ k @ t)"
      using seg k by (simp add: currentPath_child)
    then show ?thesis using seg by blast
  qed
qed

lemma subtree_path:
  assumes "addressable c" and "(pos, s) \<in> set (node_paths (Some k) p c)"
    and "k \<noteq> []" and "p \<noteq> []"
  shows "\<exists>r. s = p @ r \<and> (r = [] \<or> hd r = DOT)"
proof (cases "pos = []")
  case True
  then have "s = p"
    using assms(2) by (subst (asm) node_paths_mem) simp
  then show ?thesis by simp
next
  case False
  then obtain t where "s = currentPath (Some k) p @ t"
    using descendant_path [OF assms(1,2)] by blast
  then have "s = p @ (DOT # k @ t)"
    using assms(3,4) by (simp add: currentPath_child)
  then show ?thesis by (metis list.sel(1))
qed

lemma same_key:
  assumes "childPath a cp ki @ r1 = childPath a cp kj @ r2"
    and "DOT \<notin> set ki" and "DOT \<notin> set kj"
    and "a \<longrightarrow> RBRACKET \<notin> set ki \<and> RBRACKET \<notin> set kj"
    and "r1 = [] \<or> hd r1 = DOT" and "r2 = [] \<or> hd r2 = DOT"
  shows "ki = kj \<and> r1 = r2"
proof (cases a)
  case True
  then have "ki @ (RBRACKET # r1) = kj @ (RBRACKET # r2)"
    using assms(1) by (simp add: childPath_def)
  then have "ki = kj \<and> RBRACKET # r1 = RBRACKET # r2"
    using assms(4) True by (intro split_unique [where P = "\<lambda>c. c = RBRACKET"]) auto
  then show ?thesis by simp
next
  case False
  then have "ki @ r1 = kj @ r2"
    using assms(1) by (simp add: childPath_def split: if_splits)
  then show ?thesis
    using assms(2,3,5,6)
    by (intro split_unique [where P = "\<lambda>c. c = DOT"]) auto
qed

lemma node_paths_injective:
  "addressable v \<Longrightarrow> (p1, s) \<in> set (node_paths keyName path v) \<Longrightarrow>
   (p2, s) \<in> set (node_paths keyName path v) \<Longrightarrow> p1 = p2"
proof (induction p1 arbitrary: p2 keyName path v s)
  case Nil
  show ?case
  proof (cases p2)
    case (Cons j pos)
    have "s = path"
      using Nil.prems(2) by (subst (asm) node_paths_mem) simp
    moreover obtain t where "s = currentPath keyName path @ t" "t \<noteq> []"
      using descendant_path [OF Nil.prems(1,3)] Cons by blast
    ultimately show ?thesis
      using currentPath_extends [of keyName path] by auto
  qed simp
next
  case (Cons i pos1)
  let ?cp = "currentPath keyName path"
  let ?a = "isArray v"
  from Cons.prems(2) obtain ki ci where
    i: "i < length (entries v)" and ei: "entries v ! i = (ki, ci)"
    and mi: "(pos1, s) \<in> set (node_paths (Some ki) (childPath ?a ?cp ki) ci)"
    by (subst (asm) node_paths_mem) auto
  note Ki = entry_key [OF Cons.prems(1) i ei]
  show ?case
  proof (cases p2)
    case Nil
    have "s = path"
      using Cons.prems(3) Nil by (subst (asm) node_paths_mem) simp
    moreover obtain t where "s = ?cp @ t" "t \<noteq> []"
      using descendant_path [OF Cons.prems(1,2)] by blast
    ultimately show ?thesis
      using currentPath_extends [of keyName path] by auto
  next
    case (Cons j pos2)
    from Cons.prems(3) Cons obtain kj cj where
      j: "j < length (entries v)" and ej: "entries v ! j = (kj, cj)"
      and mj: "(pos2, s) \<in> set (node_paths (Some kj) (childPath ?a ?cp kj) cj)"
      by (subst (asm) node_paths_mem) auto
    note Kj = entry_key [OF Cons.prems(1) j ej]
    have ni: "childPath ?a ?cp ki \<noteq> []" and nj: "childPath ?a ?cp kj \<noteq> []"
      using childPath_extends [of ki ?a ?cp] childPath_extends [of kj ?a ?cp] Ki Kj by auto
    obtain r1 where r1: "s = childPath ?a ?cp ki @ r1" "r1 = [] \<or> hd r1 = DOT"
      using subtree_path [OF _ mi _ ni] Ki by blast
    obtain r2 where r2: "s = childPath ?a ?cp kj @ r2" "r2 = [] \<or> hd r2 = DOT"
      using subtree_path [OF _ mj _ nj] Kj by blast
    have "ki = kj"
      using same_key [of ?a ?cp ki r1 kj r2] r1 r2 Ki Kj by auto
    then have ij: "i = j"
      using entry_index [OF Cons.prems(1) i j] ei ej by simp
    then have "cj = ci" "kj = ki"
      using ei ej by simp_all
    then have "pos1 = pos2"
      using Cons.IH [OF _ mi] mj Ki by blast
    then show ?thesis using ij Cons by simp
  qed
qed


lemma node_paths_total:
  "value_at q v = Some c \<Longrightarrow> \<exists>s. (q, s) \<in> set (node_paths keyName path v)"
proof (induction q arbitrary: keyName path v)
  case Nil
  show ?case by (subst node_paths_mem) simp
next
  case (Cons i q)
  then have i: "i < length (entries v)" and c: "value_at q (snd (entries v ! i)) = Some c"
    by (simp_all split: if_splits)
  obtain s where "(q, s) \<in> set (node_paths (Some (fst (entries v ! i)))
      (childPath (isArray v) (currentPath keyName path) (fst (entries v ! i))) (snd (entries v ! i)))"
    using Cons.IH [OF c] by blast
  then show ?case
    using i by (subst node_paths_mem) (metis prod.collapse)
qed

text \<open>
  C5, amended: in a value tree whose object keys are all non-empty and hold neither a dot
  nor an opening bracket, any two distinct positions have distinct path strings.
\<close>

theorem paths_distinct:
  assumes "addressable root"
    and "(p1, s1) \<in> set (node_paths None [] root)"
    and "(p2, s2) \<in> set (node_paths None [] root)"
    and "p1 \<noteq> p2"
  shows "s1 \<noteq> s2"
  using assms node_paths_injective [of root p1 s1 None "[]" p2] by blast

theorem paths_distinct_witness:
  "addressable spec_doc
   \<and> ([], []) \<in> set (node_paths None [] spec_doc)
   \<and> ([0], js ''a'') \<in> set (node_paths None [] spec_doc)
   \<and> [] \<noteq> [0::nat]
   \<and> [] \<noteq> js ''a''"
proof -
  have a: "addressable spec_doc" by code_simp
  have m1: "([], []) \<in> set (node_paths None [] spec_doc)" by code_simp
  have m2: "([0], js ''a'') \<in> set (node_paths None [] spec_doc)" by code_simp
  have d: "[] \<noteq> [0::nat]" by simp
  show ?thesis
    using a m1 m2 d paths_distinct [OF a m1 m2 d] by blast
qed

text \<open>
  C5, as stated, holds for every root value. It fails for \<open>{"":1}\<close>: keys are written
  into the path as they are, and the bare empty key adds nothing, so the root, at the
  empty position, and its member, at position 0, both have the empty path.
\<close>

theorem empty_key_counterexample:
  "node_paths None [] empty_key_doc = [([], []), ([0], [])]
   \<and> ([], []) \<in> set (node_paths None [] empty_key_doc)
   \<and> ([0], []) \<in> set (node_paths None [] empty_key_doc)
   \<and> [] \<noteq> [0::nat]
   \<and> distinct (Object_keys empty_key_doc)"
  by code_simp

text \<open>
  Apart from this, the component hands a child the path that already ends in the key of
  the child, and the child appends its key once more before it builds the paths of its own
  children: the leaf of \<open>{"a":[{"b":1}]}\<close> gets the path \<open>a.a[0].0.b\<close>, where
  \<open>a[0].b\<close> is meant.
\<close>

lemma spec_doc_paths:
  "node_paths None [] spec_doc =
     [([], []), ([0], js ''a''), ([0, 0], js ''a.a[0]''), ([0, 0, 0], js ''a.a[0].0.b'')]"
  by code_simp

section \<open>Expanding and collapsing\<close>


lemma enumerate_index: "enumerate 0 xs = map (\<lambda>i. (i, xs ! i)) [0..<length xs]"
  by (rule nth_equalityI) (simp_all add: nth_enumerate_eq)

lemma map_enumerate_zip:
  "map (\<lambda>(index, kid, key, c). G index kid key c) (enumerate 0 (zip ks E))
   = map (\<lambda>i. G i (ks ! i) (fst (E ! i)) (snd (E ! i))) [0..<min (length ks) (length E)]"
  by (rule nth_equalityI) (simp_all add: nth_enumerate_eq split_def)

lemma rows_unfold:
  "rows showValues keyName isLast depth v (View expanded ks) =
     (if isObject v \<and> \<not> isEmpty v
      then (if \<not> expanded
            then [([], CollapsedRow depth keyName (isArray v) showValues
                         (length (entries v)) (\<not> isLast \<and> showValues))]
            else ([], OpenRow depth keyName (isArray v) showValues) #
                 concat (map (\<lambda>i. map (\<lambda>(pos, r). (i # pos, r))
                             (rows showValues (Some (fst (entries v ! i)))
                                (i = length (entries v) - 1) (depth + 1)
                                (snd (entries v ! i)) (ks ! i)))
                         [0..<min (length ks) (length (entries v))])
                 @ [([], CloseRow depth (isArray v) (\<not> isLast \<and> showValues))])
      else [([], ValueRow depth keyName (if showValues then Some v else None)
                   (showValues \<and> \<not> isLast))])"
  by (subst rows.simps) (simp only: map_enumerate_zip)

lemma outside_Nil: "outside [] rs = []"
  by (simp add: outside_def)

lemma outside_root: "outside (i # pos) (([], r) # rs) = ([], r) # outside (i # pos) rs"
  by (simp add: outside_def)

lemma outside_append: "outside pos (xs @ ys) = outside pos xs @ outside pos ys"
  by (simp add: outside_def)

lemma outside_concat: "outside pos (concat xss) = concat (map (outside pos) xss)"
  by (induction xss) (simp_all add: outside_append, simp add: outside_def)

lemma outside_shift_same:
  "outside (i # pos) (map (\<lambda>(q, r). (i # q, r)) rs) = map (\<lambda>(q, r). (i # q, r)) (outside pos rs)"
  by (induction rs) (auto simp: outside_def)

lemma outside_shift_other:
  "j \<noteq> i \<Longrightarrow> outside (i # pos) (map (\<lambda>(q, r). (j # q, r)) rs) = map (\<lambda>(q, r). (j # q, r)) rs"
  by (induction rs) (auto simp: outside_def)

lemma rows_outside_toggle:
  "outside pos (rows showValues keyName isLast depth v (toggle_at pos v w))
   = outside pos (rows showValues keyName isLast depth v w)"
proof (induction pos arbitrary: keyName isLast depth v w)
  case Nil
  show ?case by (simp add: outside_Nil)
next
  case (Cons i pos)
  obtain expanded ks where w: "w = View expanded ks" by (cases w)
  show ?case
  proof (cases "i < length ks \<and> i < length (entries v)")
    case False
    then show ?thesis using w by auto
  next
    case True
    let ?k' = "toggle_at pos (snd (entries v ! i)) (ks ! i)"
    let ?row = "\<lambda>ks j. map (\<lambda>(q, r). (j # q, r))
                 (rows showValues (Some (fst (entries v ! j))) (j = length (entries v) - 1)
                    (depth + 1) (snd (entries v ! j)) (ks ! j))"
    have t: "toggle_at (i # pos) v (View expanded ks) = View expanded (ks[i := ?k'])"
      using True by simp
    have each: "outside (i # pos) (?row (ks[i := ?k']) j) = outside (i # pos) (?row ks j)"
      if "j < length ks" for j
    proof (cases "j = i")
      case True
      then show ?thesis
        using that by (simp add: outside_shift_same Cons.IH)
    next
      case False
      then show ?thesis by simp
    qed
    have kidrows: "outside (i # pos)
          (concat (map (?row (ks[i := ?k'])) [0..<min (length (ks[i := ?k'])) (length (entries v))]))
        = outside (i # pos)
          (concat (map (?row ks) [0..<min (length ks) (length (entries v))]))"
      unfolding outside_concat map_map o_def length_list_update
      by (rule arg_cong [where f = concat], rule map_cong [OF refl], rule each) simp
    show ?thesis
      unfolding w t
    proof (cases "isObject v \<and> \<not> isEmpty v \<and> expanded")
      case False
      then show "outside (i # pos)
           (rows showValues keyName isLast depth v (View expanded (ks[i := ?k'])))
         = outside (i # pos) (rows showValues keyName isLast depth v (View expanded ks))"
        by (auto simp: rows_unfold)
    next
      case True
      then show "outside (i # pos)
           (rows showValues keyName isLast depth v (View expanded (ks[i := ?k'])))
         = outside (i # pos) (rows showValues keyName isLast depth v (View expanded ks))"
        using kidrows by (simp add: rows_unfold outside_root outside_append)
    qed
  qed
qed

lemma view_at_toggle:
  "view_at pos w = Some u \<Longrightarrow> value_at pos v = Some c \<Longrightarrow>
   view_at pos (toggle_at pos v w) = Some (if isObject c \<and> \<not> isEmpty c then toggleExpand c u else u)"
proof (induction pos arbitrary: v w)
  case Nil
  then show ?case by simp
next
  case (Cons i pos)
  obtain expanded ks where w: "w = View expanded ks" by (cases w)
  show ?case
    using Cons.prems Cons.IH [of "ks ! i" "snd (entries v ! i)"] w
    by (auto split: if_splits)
qed

lemma expanded_at_toggle_other:
  "\<not> prefix pos q \<Longrightarrow> expanded_at q (toggle_at pos v w) = expanded_at q w"
proof (induction pos arbitrary: q v w)
  case Nil
  then show ?case by simp
next
  case (Cons i pos)
  obtain expanded ks where w: "w = View expanded ks" by (cases w)
  show ?case
  proof (cases q)
    case Nil
    then show ?thesis using w by (simp add: expanded_at_def)
  next
    case (Cons j q')
    show ?thesis
    proof (cases "j = i")
      case True
      then have "\<not> prefix pos q'"
        using Cons.prems Cons by simp
      then have "expanded_at q' (toggle_at pos (snd (entries v ! i)) (ks ! i)) = expanded_at q' (ks ! i)"
        by (rule Cons.IH)
      then show ?thesis
        using True Cons w by (simp add: expanded_at_def)
    next
      case False
      then show ?thesis
        using Cons w by (simp add: expanded_at_def)
    qed
  qed
qed

lemma mount_composite:
  "isObject c \<and> \<not> isEmpty c \<Longrightarrow>
   mount c = View True (map (\<lambda>(key, childValue). mount childValue) (entries c))"
  by (subst mount.simps) simp

text \<open>
  C6, amended: a click on the toggler of a mounted node negates the flag of that node;
  the flag of every node that is not the node or below it, and every rendered row that
  belongs to such a node (its siblings and ancestors among them), stay as they are, and so
  does the value tree. The nodes below do not keep their state: collapsing the node
  unmounts them, and expanding it mounts them anew, all expanded.
\<close>

theorem toggle_frame:
  assumes "view_at pos (tree_view t) = Some (View e ks)"
    and "value_at pos (tree_value t) = Some c"
    and "isObject c \<and> \<not> isEmpty c"
  shows "expanded_at pos (tree_view (toggle pos t)) = Some (\<not> e)
         \<and> (\<forall>q. \<not> prefix pos q \<longrightarrow>
               expanded_at q (tree_view (toggle pos t)) = expanded_at q (tree_view t))
         \<and> outside pos (render showValues (toggle pos t)) = outside pos (render showValues t)
         \<and> tree_value (toggle pos t) = tree_value t
         \<and> view_at pos (tree_view (toggle pos t)) = Some (if e then View False [] else mount c)"
proof -
  have v: "view_at pos (tree_view (toggle pos t)) = Some (if e then View False [] else mount c)"
    using view_at_toggle [OF assms(1,2)] assms(3)
    by (simp add: toggle_def mount_composite)
  then have "expanded_at pos (tree_view (toggle pos t)) = Some (\<not> e)"
    using assms(3) by (simp add: expanded_at_def mount_composite)
  moreover have "\<forall>q. \<not> prefix pos q \<longrightarrow>
      expanded_at q (tree_view (toggle pos t)) = expanded_at q (tree_view t)"
    by (simp add: toggle_def expanded_at_toggle_other)
  moreover have "outside pos (render showValues (toggle pos t)) = outside pos (render showValues t)"
    by (simp add: toggle_def render_def rows_outside_toggle)
  moreover have "tree_value (toggle pos t) = tree_value t"
    by (simp add: toggle_def)
  ultimately show ?thesis using v by blast
qed

text \<open>
  C6, as stated: when a parent is collapsed, every descendant retains its stored expanded
  state. It fails for \<open>[[1],2]\<close>: the inner array is collapsed, then the root is collapsed
  and expanded again; the inner array has no state while the root is collapsed, and is
  expanded afterwards.
\<close>

theorem collapsed_parent_counterexample: "expanded_at [0] (tree_view nested_tree) = Some True
   \<and> expanded_at [0] (tree_view (toggle [0] nested_tree)) = Some False
   \<and> expanded_at [0] (tree_view (toggle [] (toggle [0] nested_tree))) = None
   \<and> expanded_at [0] (tree_view (toggle [] (toggle [] (toggle [0] nested_tree)))) = Some True
   \<and> render True (toggle [] (toggle [] (toggle [0] nested_tree))) \<noteq> render True (toggle [0] nested_tree)"
  by code_simp


theorem toggle_frame_witness:
  "view_at [0] (tree_view nested_tree) = Some (View True [View True []])
   \<and> value_at [0] (tree_value nested_tree) = Some (JArray [JNumber 1])
   \<and> isObject (JArray [JNumber (1::nat)]) \<and> \<not> isEmpty (JArray [JNumber (1::nat)])
   \<and> expanded_at [0] (tree_view (toggle [0] nested_tree)) = Some False
   \<and> expanded_at [] (tree_view (toggle [0] nested_tree)) = Some True
   \<and> expanded_at [1] (tree_view (toggle [0] nested_tree)) = Some True
   \<and> outside [0] (render True (toggle [0] nested_tree)) =
       [([], OpenRow 0 None True True),
        ([1], ValueRow 1 (Some (js ''1'')) (Some (JNumber 2)) False),
        ([], CloseRow 0 True False)]
   \<and> view_at [0] (tree_view (toggle [0] nested_tree)) = Some (View False [])"
proof -
  have h1: "view_at [0] (tree_view nested_tree) = Some (View True [View True []])" by code_simp
  have h2: "value_at [0] (tree_value nested_tree) = Some (JArray [JNumber 1])" by code_simp
  have h3: "isObject (JArray [JNumber (1::nat)]) \<and> \<not> isEmpty (JArray [JNumber (1::nat)])"
    by code_simp
  have o: "outside [0] (render True nested_tree) =
       [([], OpenRow 0 None True True),
        ([1], ValueRow 1 (Some (js ''1'')) (Some (JNumber 2)) False),
        ([], CloseRow 0 True False)]"
    by code_simp
  have e0: "expanded_at [] (tree_view nested_tree) = Some True" by code_simp
  have e1: "expanded_at [1] (tree_view nested_tree) = Some True" by code_simp
  have n0: "\<not> prefix [0::nat] []" and n1: "\<not> prefix [0::nat] [1]" by simp_all
  show ?thesis
    using h1 h2 h3 o e0 e1 n0 n1 toggle_frame [OF h1 h2 h3, of True]
    by (simp del: view_at.simps value_at.simps)
qed


end
